theory Spec2Isabelle
  imports Main "HOL-Library.Word"
begin

unbundle bit_operations_syntax

section \<open>The traceback ring buffer of \<^verbatim>\<open>debug_traceback.h\<close>\<close>

subsection \<open>Data\<close>

text \<open>
  Pointers are 64-bit addresses (LP64). \<^verbatim>\<open>NULL\<close> is address 0 and
  \<^verbatim>\<open>PYPYDTPOS_RERAISE\<close> is \<^verbatim>\<open>((struct pypydtpos_s *) -1)\<close>, the all-ones address.
\<close>

type_synonym ptr = "64 word"

definition NULL :: ptr where
  "NULL = 0"

definition PYPYDTPOS_RERAISE :: ptr where
  "PYPYDTPOS_RERAISE = - 1"


text \<open>\<^verbatim>\<open>struct pypydtentry_s { struct pypydtpos_s *location; void *exctype; }\<close>\<close>

record pypydtentry_s =
  location :: ptr
  exctype :: ptr


text \<open>
  The two globals: \<^verbatim>\<open>int pypydtcount\<close> and
  \<^verbatim>\<open>struct pypydtentry_s pypy_debug_tracebacks[PYPY_DEBUG_TRACEBACK_DEPTH]\<close>.
\<close>

record store =
  pypydtcount :: int
  pypy_debug_tracebacks :: "pypydtentry_s list"

text \<open>Both globals have static storage, so C zero-initializes them.\<close>

definition zero_entry :: pypydtentry_s where
  "zero_entry = \<lparr>location = NULL, exctype = NULL\<rparr>"

definition initial_store :: "nat \<Rightarrow> store" where
  "initial_store d = \<lparr>pypydtcount = 0, pypy_debug_tracebacks = replicate d zero_entry\<rparr>"

subsection \<open>The append macro\<close>

text \<open>
  \<^verbatim>\<open>PYPYDTSTORE(loc, etype)\<close> writes both fields of the slot at \<^verbatim>\<open>pypydtcount\<close> and then
  sets \<^verbatim>\<open>pypydtcount = (pypydtcount + 1) & (PYPY_DEBUG_TRACEBACK_DEPTH-1)\<close>. An index
  outside the array is undefined behaviour in C; the model returns \<open>None\<close> there. Inside
  the array \<open>pypydtcount + 1\<close> is at most the depth, so the C \<^verbatim>\<open>int\<close> cannot overflow and
  is modelled by \<open>int\<close>.
\<close>

definition PYPYDTSTORE :: "nat \<Rightarrow> ptr \<Rightarrow> ptr \<Rightarrow> store \<Rightarrow> store option" where
  "PYPYDTSTORE d loc etype st =
     (let c = pypydtcount st; a = pypy_debug_tracebacks st in
      if 0 \<le> c \<and> nat c < length a then
        Some \<lparr>pypydtcount = (c + 1) AND (int d - 1),
              pypy_debug_tracebacks = a[nat c := \<lparr>location = loc, exctype = etype\<rparr>]\<rparr>
      else None)"

text \<open>A run of appends, in program order; it stops at the first undefined one.\<close>

fun store_all :: "nat \<Rightarrow> pypydtentry_s list \<Rightarrow> store \<Rightarrow> store option" where
  "store_all d [] st = Some st"
| "store_all d (e # es) st =
     (case PYPYDTSTORE d (location e) (exctype e) st of
        None \<Rightarrow> None
      | Some st' \<Rightarrow> store_all d es st')"

text \<open>The state the header's code keeps: the cursor indexes the array, which has the depth's length.\<close>

definition store_inv :: "nat \<Rightarrow> store \<Rightarrow> bool" where
  "store_inv d st \<longleftrightarrow>
     length (pypy_debug_tracebacks st) = d \<and> 0 \<le> pypydtcount st \<and> pypydtcount st < int d"

text \<open>
  The array read as a ring: slot \<open>k\<close> steps behind the cursor, and the \<open>d\<close> slots from the
  one just before the cursor backwards.
\<close>

definition slot_before :: "nat \<Rightarrow> int \<Rightarrow> nat \<Rightarrow> nat" where
  "slot_before d c k = nat ((c - 1 - int k) mod int d)"

definition ring :: "nat \<Rightarrow> store \<Rightarrow> pypydtentry_s list" where
  "ring d st =
     map (\<lambda>k. pypy_debug_tracebacks st ! slot_before d (pypydtcount st) k) [0..<d]"

subsection \<open>The entry points that are defined empty\<close>

text \<open>
  \<^verbatim>\<open>OP_DEBUG_START_TRACEBACK(etype, _)\<close>, \<^verbatim>\<open>OP_DEBUG_RERAISE_TRACEBACK(etp, _)\<close>,
  \<^verbatim>\<open>OP_DEBUG_PRINT_TRACEBACK()\<close>, \<^verbatim>\<open>PYPY_DEBUG_RECORD_TRACEBACK(funcname)\<close> and
  \<^verbatim>\<open>PYPY_DEBUG_CATCH_EXCEPTION(funcname, etype, is_fatal)\<close> have an empty replacement
  list: an invocation is the empty statement. The machine state is the two globals and
  what has been written to the diagnostic stream.
\<close>

record machine =
  globals :: store
  diagnostic :: "string list"

definition OP_DEBUG_START_TRACEBACK :: "ptr \<Rightarrow> ptr \<Rightarrow> machine \<Rightarrow> machine" where
  "OP_DEBUG_START_TRACEBACK etype x m = m"

definition OP_DEBUG_RERAISE_TRACEBACK :: "ptr \<Rightarrow> ptr \<Rightarrow> machine \<Rightarrow> machine" where
  "OP_DEBUG_RERAISE_TRACEBACK etp x m = m"

definition OP_DEBUG_PRINT_TRACEBACK :: "machine \<Rightarrow> machine" where
  "OP_DEBUG_PRINT_TRACEBACK m = m"

definition PYPY_DEBUG_RECORD_TRACEBACK :: "string \<Rightarrow> machine \<Rightarrow> machine" where
  "PYPY_DEBUG_RECORD_TRACEBACK fn m = m"

definition PYPY_DEBUG_CATCH_EXCEPTION :: "string \<Rightarrow> ptr \<Rightarrow> bool \<Rightarrow> machine \<Rightarrow> machine" where
  "PYPY_DEBUG_CATCH_EXCEPTION fn etype is_fatal m = m"

datatype invocation =
    Start_traceback ptr ptr
  | Reraise_traceback ptr ptr
  | Print_traceback
  | Record_traceback string
  | Catch_exception string ptr bool

fun invoke :: "invocation \<Rightarrow> machine \<Rightarrow> machine" where
  "invoke (Start_traceback etype x) m = OP_DEBUG_START_TRACEBACK etype x m"
| "invoke (Reraise_traceback etp x) m = OP_DEBUG_RERAISE_TRACEBACK etp x m"
| "invoke Print_traceback m = OP_DEBUG_PRINT_TRACEBACK m"
| "invoke (Record_traceback fn) m = PYPY_DEBUG_RECORD_TRACEBACK fn m"
| "invoke (Catch_exception fn etype is_fatal) m = PYPY_DEBUG_CATCH_EXCEPTION fn etype is_fatal m"

subsection \<open>What a stored entry means\<close>

text \<open>
  The header's comment reads an entry by its two fields:
  \<^verbatim>\<open>NULL, &KeyError\<close> a KeyError was raised; \<^verbatim>\<open>h:5, NULL\<close> called from h:5;
  \<^verbatim>\<open>f:17, &KeyError\<close> called from f:17, where a finally block starts;
  \<^verbatim>\<open>RERAISE, &KeyError\<close> the KeyError is re-raised.
\<close>

datatype meaning =
    Was_raised ptr
  | Called_from ptr
  | Finally_starts ptr ptr
  | Re_raised ptr

definition meaning_of :: "pypydtentry_s \<Rightarrow> meaning" where
  "meaning_of e =
     (if location e = NULL then Was_raised (exctype e)
      else if location e = PYPYDTPOS_RERAISE then Re_raised (exctype e)
      else if exctype e = NULL then Called_from (location e)
      else Finally_starts (location e) (exctype e))"

text \<open>
  The buffer content the header's comment gives as its example, oldest entry first (the
  comment's line of dots, where more exceptions can occur, left out).
\<close>

definition documented_example :: "ptr \<Rightarrow> ptr \<Rightarrow> ptr \<Rightarrow> ptr \<Rightarrow> ptr \<Rightarrow> pypydtentry_s list" where
  "documented_example KeyError h5 g12 f17 entry25 =
     [\<lparr>location = NULL, exctype = KeyError\<rparr>,
      \<lparr>location = h5, exctype = NULL\<rparr>,
      \<lparr>location = g12, exctype = NULL\<rparr>,
      \<lparr>location = f17, exctype = KeyError\<rparr>,
      \<lparr>location = PYPYDTPOS_RERAISE, exctype = KeyError\<rparr>,
      \<lparr>location = entry25, exctype = NULL\<rparr>]"

text \<open>
  Three rows of the header's comment carry one thing each, and the specification names
  them: a frame (\<^verbatim>\<open>h:5, NULL\<close>: a location and no exception), an origin
  (\<^verbatim>\<open>NULL, &KeyError\<close>: an exception and no location) and a re-raise
  (\<^verbatim>\<open>RERAISE, &KeyError\<close>: the sentinel in the location field). \<open>encode\<close> gives the
  two fields each is stored with.
\<close>

datatype entry = Frame ptr | Origin ptr | Reraise ptr

fun encode :: "entry \<Rightarrow> pypydtentry_s" where
  "encode (Frame loc) = \<lparr>location = loc, exctype = NULL\<rparr>"
| "encode (Origin tok) = \<lparr>location = NULL, exctype = tok\<rparr>"
| "encode (Reraise tok) = \<lparr>location = PYPYDTPOS_RERAISE, exctype = tok\<rparr>"

text \<open>
  Modelled from the spec: \<open>record_frame(location)\<close> appends \<open>Frame(location)\<close>. The header's
  own entry points are defined empty; the append is the header's \<^verbatim>\<open>PYPYDTSTORE\<close> with the
  fields of a frame.
\<close>

definition record_frame :: "nat \<Rightarrow> ptr \<Rightarrow> store \<Rightarrow> store option" where
  "record_frame d loc st = PYPYDTSTORE d loc NULL st"

text \<open>
  Modelled from the spec: \<open>record_origin(exception_token)\<close> appends \<open>Origin(exception_token)\<close>,
  by \<^verbatim>\<open>PYPYDTSTORE\<close> with the fields of an origin.
\<close>

definition record_origin :: "nat \<Rightarrow> ptr \<Rightarrow> store \<Rightarrow> store option" where
  "record_origin d tok st = PYPYDTSTORE d NULL tok st"

text \<open>
  Modelled from the spec: \<open>record_reraise(exception_token)\<close> appends
  \<open>Reraise(exception_token)\<close>, by \<^verbatim>\<open>PYPYDTSTORE\<close> with the fields of a re-raise.
\<close>

definition record_reraise :: "nat \<Rightarrow> ptr \<Rightarrow> store \<Rightarrow> store option" where
  "record_reraise d tok st = PYPYDTSTORE d PYPYDTPOS_RERAISE tok st"

text \<open>Modelled from the spec: one recorder call, and a sequence of them in program order.\<close>

fun record_entry :: "nat \<Rightarrow> entry \<Rightarrow> store \<Rightarrow> store option" where
  "record_entry d (Frame loc) st = record_frame d loc st"
| "record_entry d (Origin tok) st = record_origin d tok st"
| "record_entry d (Reraise tok) st = record_reraise d tok st"

fun record_all :: "nat \<Rightarrow> entry list \<Rightarrow> store \<Rightarrow> store option" where
  "record_all d [] st = Some st"
| "record_all d (e # es) st =
     (case record_entry d e st of None \<Rightarrow> None | Some st' \<Rightarrow> record_all d es st')"

text \<open>
  A location is the address of a \<^verbatim>\<open>struct pypydtpos_s\<close> object (24 bytes on LP64: two
  pointers, an \<^verbatim>\<open>int\<close> and its padding): not null, and the object ends inside the
  address space. An exception token is the address of an exception type: not null.
\<close>

definition sizeof_pypydtpos_s :: nat where
  "sizeof_pypydtpos_s = 24"

definition valid_location :: "ptr \<Rightarrow> bool" where
  "valid_location p \<longleftrightarrow> p \<noteq> NULL \<and> unat p + sizeof_pypydtpos_s \<le> 2 ^ 64"

definition valid_token :: "ptr \<Rightarrow> bool" where
  "valid_token t \<longleftrightarrow> t \<noteq> NULL"

fun valid_entry :: "entry \<Rightarrow> bool" where
  "valid_entry (Frame loc) = valid_location loc"
| "valid_entry (Origin tok) = valid_token tok"
| "valid_entry (Reraise tok) = valid_token tok"



section \<open>The decoder and the renderer\<close>

text \<open>
  The header only declares \<^verbatim>\<open>pypy_debug_traceback_print\<close>; the body of the decoder is
  not in the sources. What follows is the decoder and the renderer of the specification,
  over the header's store.
\<close>

text \<open>
  Modelled from the spec: reading one slot of the store. The decoder must not fault, so
  a read outside the array is written out as \<open>None\<close>.
\<close>

definition read_slot :: "store \<Rightarrow> nat \<Rightarrow> pypydtentry_s option" where
  "read_slot st i =
     (if i < length (pypy_debug_tracebacks st) then Some (pypy_debug_tracebacks st ! i)
      else None)"

text \<open>
  Modelled from the spec: the scan of the decoder, missing from the sources. It goes
  backward from the slot immediately preceding the write cursor, for \<open>k\<close> entries.
\<close>

definition scan_back :: "nat \<Rightarrow> nat \<Rightarrow> store \<Rightarrow> pypydtentry_s list option" where
  "scan_back k d st =
     those (map (\<lambda>i. read_slot st (slot_before d (pypydtcount st) i)) [0..<k])"

text \<open>
  Modelled from the spec: the kind of a scanned slot. The specification has three kinds;
  a slot is read by its location field as in the header's comment, so a location with an
  exception beside it is a frame, and a never-written slot (both fields null) reads as an
  origin with the null token.
\<close>

definition entry_of :: "pypydtentry_s \<Rightarrow> entry" where
  "entry_of e =
     (case meaning_of e of
        Was_raised tok \<Rightarrow> Origin tok
      | Called_from loc \<Rightarrow> Frame loc
      | Finally_starts loc tok \<Rightarrow> Frame loc
      | Re_raised tok \<Rightarrow> Reraise tok)"

text \<open>
  Modelled from the spec: the elements of a segment's path. A frame is \<open>At\<close>, a re-raise
  boundary is \<open>Reraised\<close>, and an origin of another exception met inside a continuation is
  \<open>Nested\<close>.
\<close>

datatype item = At ptr | Reraised ptr | Nested ptr

text \<open>
  Modelled from the spec: a logical segment. It has the exception that originated it
  (\<open>None\<close>: the scan ran out of entries, origin unknown or overwritten), the exception it
  continues after a re-raise, if any, and its path, latest element first.
\<close>

datatype segment = Segment (origin: "ptr option") (continues: "ptr option") (path: "item list")

text \<open>
  Modelled from the spec: the state of the scan, which maintains a current segment being
  built: the segments closed so far, the path of the current one, and the exception the
  current one continues, if a re-raise opened it.
\<close>

record scan =
  closed :: "segment list"
  current :: "item list"
  continuation :: "ptr option"

text \<open>Modelled from the spec: the scan starts with nothing closed and an empty current segment.\<close>

definition start :: scan where
  "start = \<lparr>closed = [], current = [], continuation = None\<rparr>"

text \<open>
  Modelled from the spec: closing the current segment, labelled with the exception \<open>tok\<close>
  and holding the elements collected so far; a new current segment starts empty.
\<close>

definition close_segment :: "ptr \<Rightarrow> scan \<Rightarrow> scan" where
  "close_segment tok s =
     \<lparr>closed = closed s @ [Segment (Some tok) (continuation s) (current s)],
      current = [], continuation = None\<rparr>"

text \<open>
  Modelled from the spec: one step of the decoder's scan.
  On \<open>Frame(loc)\<close>: attach \<open>loc\<close> to the current segment.
  On \<open>Origin(tok)\<close>: close the current segment, labelling it with \<open>tok\<close>. Inside a
  continuation only the matching origin closes it, the two parts linked as one path:
  older entries are attributed to the continuation until a matching origin is found.
  On \<open>Reraise(tok)\<close>: the current segment goes on as a continuation of \<open>tok\<close>, beyond a
  re-raise boundary. Inside a continuation already open the entry is attributed to it.
\<close>

fun step :: "scan \<Rightarrow> entry \<Rightarrow> scan" where
  "step s (Frame loc) = s\<lparr>current := current s @ [At loc]\<rparr>"
| "step s (Origin tok) =
     (case continuation s of
        None \<Rightarrow> close_segment tok s
      | Some t \<Rightarrow> if t = tok then close_segment tok s
                  else s\<lparr>current := current s @ [Nested tok]\<rparr>)"
| "step s (Reraise tok) =
     (case continuation s of
        None \<Rightarrow> s\<lparr>current := current s @ [Reraised tok], continuation := Some tok\<rparr>
      | Some t \<Rightarrow> s\<lparr>current := current s @ [Reraised tok]\<rparr>)"

text \<open>
  Modelled from the spec: when the scan runs out of entries, what is left of the current
  segment is reported with its origin unknown.
\<close>

definition finish :: "scan \<Rightarrow> segment list" where
  "finish s =
     closed s @ (if current s = [] then [] else [Segment None (continuation s) (current s)])"

text \<open>Modelled from the spec: the segments built from the scanned entries, latest first.\<close>

definition segments_of :: "entry list \<Rightarrow> segment list" where
  "segments_of es = finish (foldl step start es)"

text \<open>
  Modelled from the spec: decoding the \<open>k\<close> most recent slots into the ordered sequence
  of logical segments; \<open>None\<close> would be a fault of the scan.
\<close>

definition decode_first :: "nat \<Rightarrow> nat \<Rightarrow> store \<Rightarrow> segment list option" where
  "decode_first k d st =
     (case scan_back k d st of
        None \<Rightarrow> None
      | Some w \<Rightarrow> Some (segments_of (map entry_of w)))"

text \<open>
  Modelled from the spec: \<open>decode()\<close> where no total-writes counter is available, as on
  the header's store, which has the masked cursor only: the scan takes \<open>capacity\<close>
  entries. Once the store has wrapped this is the scan of
  \<open>min(total_writes_ever, capacity)\<close> entries.
\<close>

definition decode :: "nat \<Rightarrow> store \<Rightarrow> segment list option" where
  "decode d st = decode_first d d st"

text \<open>Modelled from the spec: the recorded entry that an element of a path stands for.\<close>

fun item_entry :: "item \<Rightarrow> entry" where
  "item_entry (At loc) = Frame loc"
| "item_entry (Reraised tok) = Reraise tok"
| "item_entry (Nested tok) = Origin tok"

text \<open>
  Modelled from the spec: the logical elements of one segment, most recent first: the
  elements of its path, then its origin when it has one.
\<close>

fun segment_elements :: "segment \<Rightarrow> entry list" where
  "segment_elements (Segment org cont p) =
     map item_entry p @ (case org of None \<Rightarrow> [] | Some tok \<Rightarrow> [Origin tok])"

text \<open>Modelled from the spec: the logical elements of a decoded result, most recent first.\<close>

definition elements :: "segment list \<Rightarrow> entry list" where
  "elements segs = concat (map segment_elements segs)"






section \<open>The store that counts its writes, and its initialization\<close>

text \<open>
  Modelled from the spec: the Ring Store with the total-writes-ever counter that the
  specification recommends, beside the array and the cursor. The header's store is the
  array and the masked cursor only; it has no such counter.
\<close>

record ring_store =
  buffer :: store
  total_writes :: nat




text \<open>
  Modelled from the spec: \<open>decode()\<close> on the counting store: the scan goes backward from
  the slot immediately preceding the write cursor, for \<open>min(total_writes_ever, capacity)\<close>
  entries.
\<close>

definition decode_counted :: "nat \<Rightarrow> ring_store \<Rightarrow> segment list option" where
  "decode_counted d rs = decode_first (min (total_writes rs) d) d (buffer rs)"



section \<open>Properties\<close>

lemma mask_is_mod:
  fixes k :: int
  shows "k AND (2 ^ n - 1) = k mod 2 ^ n"
  by (simp flip: mask_eq_exp_minus_1 take_bit_eq_mask add: take_bit_eq_mod)

lemma PYPYDTSTORE_inv:
  assumes "store_inv (2 ^ n) st"
  shows "PYPYDTSTORE (2 ^ n) loc etype st =
           Some \<lparr>pypydtcount = (pypydtcount st + 1) mod 2 ^ n,
                 pypy_debug_tracebacks =
                   (pypy_debug_tracebacks st)[nat (pypydtcount st) := \<lparr>location = loc, exctype = etype\<rparr>]\<rparr>"
  using assms by (simp add: PYPYDTSTORE_def store_inv_def Let_def mask_is_mod nat_less_iff)

lemma slot_before_less: "0 < d \<Longrightarrow> slot_before d c k < d"
  by (simp add: slot_before_def nat_less_iff)

lemma slot_before_advance:
  fixes c :: int
  shows "slot_before d ((c + 1) mod int d) k = nat ((c - int k) mod int d)"
proof -
  have "((c + 1) mod int d - 1 - int k) mod int d = (c + 1 - 1 - int k) mod int d"
    by (metis mod_diff_left_eq diff_diff_eq)
  then show ?thesis by (simp add: slot_before_def)
qed

lemma slot_before_other:
  assumes "0 \<le> c" "c < int d" "0 < k" "k < d"
  shows "nat ((c - int k) mod int d) \<noteq> nat c"
proof
  assume "nat ((c - int k) mod int d) = nat c"
  moreover have "0 \<le> (c - int k) mod int d" using assms by simp
  ultimately have "(c - int k) mod int d = c" using assms by linarith
  then have "(c - int k) mod int d = c mod int d" using assms by simp
  then have "int d dvd int k"
    by (metis mod_eq_dvd_iff add_diff_cancel_left' diff_add_cancel)
  then show False using assms by (simp add: dvd_imp_le nat_dvd_not_less)
qed

lemma ring_length: "length (ring d st) = d"
  by (simp add: ring_def)

lemma ring_nth: "k < d \<Longrightarrow> ring d st ! k = pypy_debug_tracebacks st ! slot_before d (pypydtcount st) k"
  by (simp add: ring_def)

lemma ring_step:
  assumes inv: "store_inv (2 ^ n) st"
    and st': "PYPYDTSTORE (2 ^ n) loc etype st = Some st'"
  shows "ring (2 ^ n) st' = \<lparr>location = loc, exctype = etype\<rparr> # butlast (ring (2 ^ n) st)"
proof (rule nth_equalityI)
  show "length (ring (2 ^ n) st') = length (\<lparr>location = loc, exctype = etype\<rparr> # butlast (ring (2 ^ n) st))"
    by (simp add: ring_length)
next
  fix k assume "k < length (ring (2 ^ n) st')"
  then have k: "k < 2 ^ n" by (simp add: ring_length)
  let ?d = "2 ^ n :: nat"
  let ?c = "pypydtcount st"
  let ?a = "pypy_debug_tracebacks st"
  let ?e = "\<lparr>location = loc, exctype = etype\<rparr>"
  from inv have c: "0 \<le> ?c" "?c < int ?d" and len: "length ?a = ?d"
    by (simp_all add: store_inv_def)
  from c have nc: "nat ?c < length ?a" unfolding len by linarith
  from st' PYPYDTSTORE_inv [OF inv, of loc etype]
  have cnt: "pypydtcount st' = (?c + 1) mod int ?d"
    and arr: "pypy_debug_tracebacks st' = ?a[nat ?c := ?e]"
    by auto
  have idx: "slot_before ?d (pypydtcount st') k = nat ((?c - int k) mod int ?d)"
    unfolding cnt by (rule slot_before_advance)
  show "ring (2 ^ n) st' ! k = (?e # butlast (ring (2 ^ n) st)) ! k"
  proof (cases k)
    case 0
    have "nat (?c mod int ?d) = nat ?c" using c by simp
    with 0 idx nc show ?thesis
      by (simp add: ring_nth arr del: of_nat_power)
  next
    case (Suc j)
    with k have j: "j < ?d - 1" by simp
    have ne: "nat ((?c - int k) mod int ?d) \<noteq> nat ?c"
      using slot_before_other [of ?c ?d k] c k Suc by simp
    have "ring ?d st' ! k = ?a ! nat ((?c - int k) mod int ?d)"
      using k ne by (simp add: ring_nth idx arr del: of_nat_power)
    also have "\<dots> = ?a ! slot_before ?d ?c j"
      using Suc by (simp add: slot_before_def algebra_simps)
    also have "\<dots> = ring ?d st ! j"
      using j by (simp add: ring_nth)
    also have "\<dots> = butlast (ring ?d st) ! j"
      using j by (simp add: nth_butlast ring_length)
    finally show ?thesis using Suc by simp
  qed
qed

lemma PYPYDTSTORE_store_inv:
  assumes "store_inv (2 ^ n) st" "PYPYDTSTORE (2 ^ n) loc etype st = Some st'"
  shows "store_inv (2 ^ n) st'"
  using assms PYPYDTSTORE_inv [OF assms(1), of loc etype]
  by (auto simp: store_inv_def)

lemma take_append_butlast:
  assumes "xs \<noteq> []" "length ys = d"
  shows "take d (xs @ butlast ys) = take d (xs @ ys)"
proof -
  have "d - length xs \<le> length ys - 1" using assms by (cases xs) auto
  then have "take (d - length xs) (butlast ys) = take (d - length xs) ys"
    by (simp add: butlast_conv_take min_def)
  then show ?thesis by simp
qed

lemma store_all_ring:
  assumes "store_inv (2 ^ n) st"
  shows "\<exists>st'. store_all (2 ^ n) es st = Some st' \<and> store_inv (2 ^ n) st' \<and>
           pypydtcount st' = (pypydtcount st + int (length es)) mod 2 ^ n \<and>
           ring (2 ^ n) st' = take (2 ^ n) (rev es @ ring (2 ^ n) st)"
  using assms
proof (induction es arbitrary: st)
  case Nil
  then show ?case by (simp add: ring_length store_inv_def)
next
  case (Cons e es)
  let ?e = "\<lparr>location = location e, exctype = exctype e\<rparr>"
  obtain st1 where st1: "PYPYDTSTORE (2 ^ n) (location e) (exctype e) st = Some st1"
    using PYPYDTSTORE_inv [OF Cons.prems] by simp
  have inv1: "store_inv (2 ^ n) st1"
    using Cons.prems st1 by (rule PYPYDTSTORE_store_inv)
  have cnt1: "pypydtcount st1 = (pypydtcount st + 1) mod 2 ^ n"
    using st1 PYPYDTSTORE_inv [OF Cons.prems, of "location e" "exctype e"] by auto
  have ring1: "ring (2 ^ n) st1 = e # butlast (ring (2 ^ n) st)"
    using ring_step [OF Cons.prems st1] by simp
  from Cons.IH [OF inv1] obtain st' where
    run: "store_all (2 ^ n) es st1 = Some st'" and inv': "store_inv (2 ^ n) st'"
    and cnt': "pypydtcount st' = (pypydtcount st1 + int (length es)) mod 2 ^ n"
    and ring': "ring (2 ^ n) st' = take (2 ^ n) (rev es @ ring (2 ^ n) st1)"
    by blast
  have "((pypydtcount st + 1) mod 2 ^ n + int (length es)) mod 2 ^ n =
        (pypydtcount st + 1 + int (length es)) mod 2 ^ n"
    by (rule mod_add_left_eq)
  then have "pypydtcount st' = (pypydtcount st + int (length (e # es))) mod 2 ^ n"
    unfolding cnt' cnt1 by (simp add: ac_simps)
  moreover have "ring (2 ^ n) st' = take (2 ^ n) (rev (e # es) @ ring (2 ^ n) st)"
    unfolding ring' ring1
    using take_append_butlast [of "rev es @ [e]" "ring (2 ^ n) st" "2 ^ n"]
    by (simp add: ring_length)
  ultimately show ?case using st1 run inv' by simp
qed

lemma ring_initial: "ring d (initial_store d) = replicate d zero_entry"
proof (cases "d = 0")
  case True
  then show ?thesis by (simp add: ring_def)
next
  case False
  then show ?thesis
    by (auto simp: ring_def initial_store_def slot_before_less map_replicate_const
        intro!: nth_equalityI)
qed

lemma initial_store_inv: "0 < d \<Longrightarrow> store_inv d (initial_store d)"
  by (simp add: store_inv_def initial_store_def)

lemma those_map_Some: "those (map (\<lambda>k. Some (f k)) xs) = Some (map f xs)"
  by (induction xs) simp_all

lemma scan_back_take:
  assumes "length (pypy_debug_tracebacks st) = d" "k \<le> d"
  shows "scan_back k d st = Some (take k (ring d st))"
proof -
  have "map (\<lambda>i. read_slot st (slot_before d (pypydtcount st) i)) [0..<k] =
        map (\<lambda>i. Some (pypy_debug_tracebacks st ! slot_before d (pypydtcount st) i)) [0..<k]"
    using assms by (cases "d = 0") (auto simp: read_slot_def slot_before_less)
  moreover have "take k (ring d st) =
        map (\<lambda>i. pypy_debug_tracebacks st ! slot_before d (pypydtcount st) i) [0..<k]"
    using assms(2) by (simp add: ring_def take_map min_def)
  ultimately show ?thesis
    unfolding scan_back_def by (simp only: those_map_Some)
qed

lemma scan_back_ring:
  assumes "length (pypy_debug_tracebacks st) = d"
  shows "scan_back d d st = Some (ring d st)"
  using scan_back_take [OF assms, of d] by (simp add: ring_length)

lemma record_all_store_all: "record_all d es st = store_all d (map encode es) st"
proof (induction es arbitrary: st)
  case Nil
  show ?case by simp
next
  case (Cons e es)
  have "record_entry d e st = PYPYDTSTORE d (location (encode e)) (exctype (encode e)) st"
    by (cases e) (simp_all add: record_frame_def record_origin_def record_reraise_def)
  with Cons show ?case by (simp split: option.split)
qed

lemma store_all_initial:
  "\<exists>st. store_all (2 ^ n) es (initial_store (2 ^ n)) = Some st \<and> store_inv (2 ^ n) st \<and>
     pypydtcount st = int (length es) mod 2 ^ n \<and>
     ring (2 ^ n) st = take (2 ^ n) (rev es @ replicate (2 ^ n) zero_entry)"
proof -
  have "pypydtcount (initial_store (2 ^ n)) = 0" by (simp add: initial_store_def)
  with store_all_ring [OF initial_store_inv, of n es] show ?thesis
    by (simp add: ring_initial)
qed

lemma slot_before_last:
  assumes "0 \<le> c" "c < int d"
  shows "slot_before d c (d - 1) = nat c"
proof -
  have "0 < d" using assms by simp
  then have "c - 1 - int (d - 1) = c - int d" by simp
  moreover have "(c - int d) mod int d = c" using assms by simp
  ultimately show ?thesis by (simp add: slot_before_def)
qed

lemma record_entry_inv:
  assumes "store_inv (2 ^ n) st"
  shows "record_entry (2 ^ n) e st =
           Some \<lparr>pypydtcount = (pypydtcount st + 1) mod 2 ^ n,
                 pypy_debug_tracebacks = (pypy_debug_tracebacks st)[nat (pypydtcount st) := encode e]\<rparr>"
  by (cases e)
    (simp_all add: record_frame_def record_origin_def record_reraise_def PYPYDTSTORE_inv [OF assms])

text \<open>
  C5. Every append writes one entry at the current cursor slot and advances the cursor
  by one modulo the capacity. From the zero-initialized store every run of appends is
  defined; afterwards the cursor is the number of appends modulo the capacity, it lies in
  \<open>[0, capacity)\<close> and indexes the array, and the next append, whatever its two arguments
  and so each of the three recorder operations, writes the slot at the cursor, leaves the
  array's length as it is and moves the cursor on by one modulo the capacity. Once the
  appends have filled the array, the slot at the cursor holds the oldest entry still
  stored.
\<close>

theorem append_advances_cursor:
  "\<exists>st. store_all (2 ^ n) es (initial_store (2 ^ n)) = Some st \<and>
     store_inv (2 ^ n) st \<and>
     pypydtcount st = int (length es) mod 2 ^ n \<and>
     (\<forall>loc etype. PYPYDTSTORE (2 ^ n) loc etype st =
        Some \<lparr>pypydtcount = (pypydtcount st + 1) mod 2 ^ n,
              pypy_debug_tracebacks =
                (pypy_debug_tracebacks st)
                  [nat (pypydtcount st) := \<lparr>location = loc, exctype = etype\<rparr>]\<rparr>) \<and>
     (\<forall>e. record_entry (2 ^ n) e st =
        Some \<lparr>pypydtcount = (pypydtcount st + 1) mod 2 ^ n,
              pypy_debug_tracebacks =
                (pypy_debug_tracebacks st)[nat (pypydtcount st) := encode e]\<rparr>) \<and>
     (2 ^ n \<le> length es \<longrightarrow>
        pypy_debug_tracebacks st ! nat (pypydtcount st) = es ! (length es - 2 ^ n))"
proof -
  let ?d = "2 ^ n :: nat"
  obtain st where run: "store_all ?d es (initial_store ?d) = Some st"
    and inv: "store_inv ?d st"
    and cnt: "pypydtcount st = int (length es) mod 2 ^ n"
    and rng: "ring ?d st = take ?d (rev es @ replicate ?d zero_entry)"
    using store_all_initial [of n es] by blast
  have oldest: "pypy_debug_tracebacks st ! nat (pypydtcount st) = es ! (length es - ?d)"
    if full: "?d \<le> length es"
  proof -
    from inv have c: "0 \<le> pypydtcount st" "pypydtcount st < int ?d"
      by (simp_all add: store_inv_def)
    have "pypy_debug_tracebacks st ! nat (pypydtcount st) = ring ?d st ! (?d - 1)"
      using slot_before_last [OF c] by (simp add: ring_nth)
    also have "\<dots> = rev es ! (?d - 1)"
      using full by (simp add: rng nth_append)
    also have "\<dots> = es ! (length es - Suc (?d - 1))"
    proof (rule rev_nth)
      have "0 < ?d" by simp
      with full show "?d - 1 < length es" by linarith
    qed
    also have "Suc (?d - 1) = ?d" by simp
    finally show ?thesis .
  qed
  show ?thesis
    using run inv cnt oldest PYPYDTSTORE_inv [OF inv] record_entry_inv [OF inv] by blast
qed

theorem append_advances_cursor_witness:
  "\<exists>st. store_all 128 [encode (Origin 8192), encode (Frame 4096)] (initial_store 128) = Some st \<and>
     store_inv 128 st \<and> pypydtcount st = 2 \<and>
     PYPYDTSTORE 128 PYPYDTPOS_RERAISE 8192 st =
        Some \<lparr>pypydtcount = 3,
              pypy_debug_tracebacks =
                (pypy_debug_tracebacks st)[2 := encode (Reraise 8192)]\<rparr>"
proof -
  from append_advances_cursor [of 7 "[encode (Origin 8192), encode (Frame 4096)]"]
  obtain st where
    "store_all 128 [encode (Origin 8192), encode (Frame 4096)] (initial_store 128) = Some st"
    "store_inv 128 st" "pypydtcount st = 2"
    "\<forall>loc etype. PYPYDTSTORE 128 loc etype st =
        Some \<lparr>pypydtcount = (pypydtcount st + 1) mod 128,
              pypy_debug_tracebacks =
                (pypy_debug_tracebacks st)
                  [nat (pypydtcount st) := \<lparr>location = loc, exctype = etype\<rparr>]\<rparr>"
    by auto
  then show ?thesis by auto
qed

text \<open>
  C10. As the header defines them, \<^verbatim>\<open>OP_DEBUG_START_TRACEBACK\<close>,
  \<^verbatim>\<open>OP_DEBUG_RERAISE_TRACEBACK\<close>, \<^verbatim>\<open>OP_DEBUG_PRINT_TRACEBACK\<close>,
  \<^verbatim>\<open>PYPY_DEBUG_RECORD_TRACEBACK\<close> and \<^verbatim>\<open>PYPY_DEBUG_CATCH_EXCEPTION\<close> expand to no
  operation: in every state, each of them, and every sequence of invocations of them,
  leaves the array, the cursor and the diagnostic output as they were.
\<close>

theorem empty_entry_points_change_nothing:
  "OP_DEBUG_START_TRACEBACK etype x m = m \<and>
   OP_DEBUG_RERAISE_TRACEBACK etp y m = m \<and>
   OP_DEBUG_PRINT_TRACEBACK m = m \<and>
   PYPY_DEBUG_RECORD_TRACEBACK fn m = m \<and>
   PYPY_DEBUG_CATCH_EXCEPTION fn etype is_fatal m = m \<and>
   fold invoke calls m = m \<and>
   pypydtcount (globals (fold invoke calls m)) = pypydtcount (globals m) \<and>
   pypy_debug_tracebacks (globals (fold invoke calls m)) = pypy_debug_tracebacks (globals m) \<and>
   diagnostic (fold invoke calls m) = diagnostic m"
proof -
  have one: "invoke c m' = m'" for c m'
    by (cases c)
      (simp_all add: OP_DEBUG_START_TRACEBACK_def OP_DEBUG_RERAISE_TRACEBACK_def
        OP_DEBUG_PRINT_TRACEBACK_def PYPY_DEBUG_RECORD_TRACEBACK_def
        PYPY_DEBUG_CATCH_EXCEPTION_def)
  have "fold invoke calls m = m"
    by (induction calls) (simp_all add: one)
  then show ?thesis
    by (simp add: OP_DEBUG_START_TRACEBACK_def OP_DEBUG_RERAISE_TRACEBACK_def
        OP_DEBUG_PRINT_TRACEBACK_def PYPY_DEBUG_RECORD_TRACEBACK_def
        PYPY_DEBUG_CATCH_EXCEPTION_def)
qed

lemma reraise_not_null: "PYPYDTPOS_RERAISE \<noteq> NULL"
  by (simp add: PYPYDTPOS_RERAISE_def NULL_def)

lemma reraise_not_location: "\<not> valid_location PYPYDTPOS_RERAISE"
  by (simp add: valid_location_def PYPYDTPOS_RERAISE_def sizeof_pypydtpos_s_def unsigned_minus_1_eq_mask mask_eq_exp_minus_1)

lemma valid_location_neq:
  assumes "valid_location p"
  shows "p \<noteq> NULL" "p \<noteq> PYPYDTPOS_RERAISE"
  using assms reraise_not_location by (auto simp: valid_location_def)

lemma meaning_of_encode:
  assumes "valid_entry e"
  shows "meaning_of (encode e) =
           (case e of Frame loc \<Rightarrow> Called_from loc | Origin tok \<Rightarrow> Was_raised tok
            | Reraise tok \<Rightarrow> Re_raised tok)"
  using assms
  by (cases e) (auto simp: meaning_of_def reraise_not_null dest: valid_location_neq)

text \<open>
  C8. The kind of a stored entry is recoverable from its two fields. For a frame at a
  location that holds a position record, and an origin or a re-raise of a non-null
  exception token, the stored fields read back as that kind with that payload; the stored
  entry differs from a never-written (all-null) slot; its location field is the re-raise
  sentinel exactly when it is a re-raise; its exception field is null exactly when it is
  a frame; two such entries stored alike are the same entry. The sentinel is not null and
  is no location of a position record.
\<close>

theorem entry_kind_recoverable:
  assumes "valid_entry e"
  shows "meaning_of (encode e) =
           (case e of Frame loc \<Rightarrow> Called_from loc | Origin tok \<Rightarrow> Was_raised tok
            | Reraise tok \<Rightarrow> Re_raised tok) \<and>
         encode e \<noteq> zero_entry \<and>
         (location (encode e) = PYPYDTPOS_RERAISE \<longleftrightarrow> (\<exists>tok. e = Reraise tok)) \<and>
         (exctype (encode e) = NULL \<longleftrightarrow> (\<exists>loc. e = Frame loc)) \<and>
         (\<forall>e'. valid_entry e' \<and> encode e' = encode e \<longrightarrow> e' = e) \<and>
         PYPYDTPOS_RERAISE \<noteq> NULL \<and> \<not> valid_location PYPYDTPOS_RERAISE"
proof -
  have inj: "e' = e" if "valid_entry e'" "encode e' = encode e" for e'
  proof -
    from that(2) have "meaning_of (encode e') = meaning_of (encode e)" by simp
    then show ?thesis
      unfolding meaning_of_encode [OF that(1)] meaning_of_encode [OF assms]
      by (cases e; cases e') simp_all
  qed
  have "encode e \<noteq> zero_entry"
    using assms
    by (cases e) (auto simp: zero_entry_def valid_token_def reraise_not_null dest: valid_location_neq)
  moreover have "location (encode e) = PYPYDTPOS_RERAISE \<longleftrightarrow> (\<exists>tok. e = Reraise tok)"
    using assms reraise_not_null by (cases e) (auto dest: valid_location_neq)
  moreover have "exctype (encode e) = NULL \<longleftrightarrow> (\<exists>loc. e = Frame loc)"
    using assms by (cases e) (auto simp: valid_token_def)
  ultimately show ?thesis
    using meaning_of_encode [OF assms] inj reraise_not_null reraise_not_location by blast
qed

theorem entry_kind_recoverable_witness:
  "meaning_of (encode (Frame 4096)) = Called_from 4096 \<and>
   encode (Frame 4096) \<noteq> zero_entry \<and>
   location (encode (Frame 4096)) \<noteq> PYPYDTPOS_RERAISE \<and>
   exctype (encode (Frame 4096)) = NULL"
proof -
  have "valid_entry (Frame 4096)"
    by (simp add: valid_location_def NULL_def sizeof_pypydtpos_s_def)
  from entry_kind_recoverable [OF this] show ?thesis by auto
qed

lemma not_encoded:
  assumes "valid_location loc" "valid_token tok"
  shows "encode e \<noteq> \<lparr>location = loc, exctype = tok\<rparr>"
  using assms by (cases e) (auto simp: valid_token_def dest: valid_location_neq)

text \<open>
  C9. The entry representation admits, and the header's documented example uses, a
  fourth shape: a location and an exception token both non-null (called from f:17, where
  a finally block starts). No frame, origin or re-raise is stored with these fields; the
  fourth line of the documented example is such an entry, and appending the example to
  the zero-initialized store leaves it in slot 3 of the array.
\<close>

theorem fourth_entry_shape:
  assumes "valid_location f17" "valid_token KeyError"
  shows "meaning_of \<lparr>location = f17, exctype = KeyError\<rparr> = Finally_starts f17 KeyError \<and>
         (\<forall>e. encode e \<noteq> \<lparr>location = f17, exctype = KeyError\<rparr>) \<and>
         documented_example KeyError h5 g12 f17 entry25 ! 3 = \<lparr>location = f17, exctype = KeyError\<rparr> \<and>
         (\<exists>st. store_all (2 ^ (n + 3)) (documented_example KeyError h5 g12 f17 entry25)
                  (initial_store (2 ^ (n + 3))) = Some st \<and>
               pypy_debug_tracebacks st ! 3 = \<lparr>location = f17, exctype = KeyError\<rparr>)"
proof -
  let ?d = "2 ^ (n + 3) :: nat"
  let ?ex = "documented_example KeyError h5 g12 f17 entry25"
  have len: "length ?ex = 6" by (simp add: documented_example_def)
  have big: "8 \<le> ?d" by (simp add: power_add)
  obtain st where run: "store_all ?d ?ex (initial_store ?d) = Some st"
    and inv: "store_inv ?d st"
    and cnt: "pypydtcount st = int (length ?ex) mod 2 ^ (n + 3)"
    and rng: "ring ?d st = take ?d (rev ?ex @ replicate ?d zero_entry)"
    using store_all_initial [of "n + 3" ?ex] by blast
  have "(8 :: int) \<le> 2 ^ (n + 3)" by (simp add: power_add)
  then have small: "(6 :: int) < 2 ^ (n + 3)" "(3 :: int) < 2 ^ (n + 3)" by linarith+
  then have "int (length ?ex) mod 2 ^ (n + 3) = 6"
    using len by simp
  with cnt have c6: "pypydtcount st = 6" by simp
  have "slot_before ?d 6 2 = 3"
    using small by (simp add: slot_before_def)
  then have "pypy_debug_tracebacks st ! 3 = ring ?d st ! 2"
    using big c6 ring_nth [of 2 ?d st] by simp
  also have "\<dots> = rev ?ex ! 2"
    using big len by (simp add: rng nth_append)
  also have "\<dots> = \<lparr>location = f17, exctype = KeyError\<rparr>"
    by (simp add: documented_example_def)
  finally have slot: "pypy_debug_tracebacks st ! 3 = \<lparr>location = f17, exctype = KeyError\<rparr>" .
  have "meaning_of \<lparr>location = f17, exctype = KeyError\<rparr> = Finally_starts f17 KeyError"
    using assms by (auto simp: meaning_of_def valid_token_def dest: valid_location_neq)
  moreover have "documented_example KeyError h5 g12 f17 entry25 ! 3 = \<lparr>location = f17, exctype = KeyError\<rparr>"
    by (simp add: documented_example_def)
  ultimately show ?thesis
    using not_encoded [OF assms] run slot by blast
qed

theorem fourth_entry_shape_witness:
  "meaning_of \<lparr>location = 4144, exctype = 8192\<rparr> = Finally_starts 4144 8192 \<and>
   (\<exists>st. store_all 128 (documented_example 8192 4096 4120 4144 4168) (initial_store 128) = Some st \<and>
         pypy_debug_tracebacks st ! 3 = \<lparr>location = 4144, exctype = 8192\<rparr>)"
proof -
  have "valid_location 4144" "valid_token 8192"
    by (simp_all add: valid_location_def valid_token_def NULL_def sizeof_pypydtpos_s_def)
  from fourth_entry_shape [OF this, of 4096 4120 4168 4] show ?thesis by simp
qed





lemma entry_of_encode: "valid_entry e \<Longrightarrow> entry_of (encode e) = e"
  using meaning_of_encode [of e] by (cases e) (simp_all add: entry_of_def)

lemma map_entry_of_encode:
  "\<forall>e\<in>set es. valid_entry e \<Longrightarrow> map entry_of (map encode es) = es"
  by (induction es) (simp_all add: entry_of_encode)

lemma entry_of_zero: "entry_of zero_entry = Origin NULL"
  by (simp add: entry_of_def meaning_of_def zero_entry_def)

lemma elements_append: "elements (xs @ ys) = elements xs @ elements ys"
  by (simp add: elements_def)

lemma elements_step:
  "elements (closed (step s e)) @ map item_entry (current (step s e)) =
   elements (closed s) @ map item_entry (current s) @ [e]"
  by (cases e) (simp_all add: close_segment_def elements_def split: option.split)

lemma elements_foldl_step:
  "elements (closed (foldl step s es)) @ map item_entry (current (foldl step s es)) =
   elements (closed s) @ map item_entry (current s) @ es"
proof (induction es arbitrary: s)
  case Nil
  show ?case by simp
next
  case (Cons e es)
  show ?case
    unfolding foldl_Cons Cons.IH [of "step s e"] using elements_step [of s e] by simp
qed

lemma elements_finish:
  "elements (finish s) = elements (closed s) @ map item_entry (current s)"
  by (simp add: finish_def elements_def)

lemma elements_segments_of: "elements (segments_of es) = es"
proof -
  have "elements (closed start) @ map item_entry (current start) @ es = es"
    by (simp add: start_def elements_def)
  then show ?thesis
    unfolding segments_of_def elements_finish elements_foldl_step [of start es] .
qed

lemma decode_stored:
  "\<exists>st. store_all (2 ^ n) raw (initial_store (2 ^ n)) = Some st \<and>
     store_inv (2 ^ n) st \<and>
     ring (2 ^ n) st = take (2 ^ n) (rev raw @ replicate (2 ^ n) zero_entry) \<and>
     decode (2 ^ n) st =
       Some (segments_of
               (take (2 ^ n) (rev (map entry_of raw) @ replicate (2 ^ n) (Origin NULL))))"
proof -
  let ?d = "2 ^ n :: nat"
  obtain st where run: "store_all ?d raw (initial_store ?d) = Some st"
    and inv: "store_inv ?d st"
    and rng: "ring ?d st = take ?d (rev raw @ replicate ?d zero_entry)"
    using store_all_initial [of n raw] by blast
  from inv have "length (pypy_debug_tracebacks st) = ?d" by (simp add: store_inv_def)
  then have scan: "scan_back ?d ?d st = Some (ring ?d st)" by (rule scan_back_ring)
  have "map entry_of (ring ?d st) =
          take ?d (rev (map entry_of raw) @ replicate ?d (Origin NULL))"
    unfolding rng by (simp add: take_map rev_map entry_of_zero)
  then have "decode ?d st =
      Some (segments_of (take ?d (rev (map entry_of raw) @ replicate ?d (Origin NULL))))"
    by (simp add: decode_def decode_first_def scan)
  with run inv rng show ?thesis by blast
qed

lemma decode_recorded:
  assumes valid: "\<forall>e\<in>set es. valid_entry e"
  shows "\<exists>st. record_all (2 ^ n) es (initial_store (2 ^ n)) = Some st \<and>
           store_inv (2 ^ n) st \<and>
           ring (2 ^ n) st =
             take (2 ^ n) (map encode (rev es) @ replicate (2 ^ n) zero_entry) \<and>
           decode (2 ^ n) st =
             Some (segments_of (take (2 ^ n) (rev es @ replicate (2 ^ n) (Origin NULL))))"
proof -
  have same: "map entry_of (map encode es) = es"
    using valid by (rule map_entry_of_encode)
  have "rev (map encode es) = map encode (rev es)" by (simp add: rev_map)
  with decode_stored [of n "map encode es"] show ?thesis
    unfolding same record_all_store_all by simp
qed


lemma slot_before_inverse:
  assumes "i < d"
  shows "slot_before d c (nat ((c - 1 - int i) mod int d)) = i"
proof -
  have d: "0 < int d" using assms by simp
  then have nn: "0 \<le> (c - 1 - int i) mod int d" by simp
  have "(c - 1 - (c - 1 - int i) mod int d) mod int d = (c - 1 - (c - 1 - int i)) mod int d"
    by (rule mod_diff_right_eq)
  also have "\<dots> = int i" using assms by simp
  finally show ?thesis using nn by (simp add: slot_before_def)
qed

lemma store_determined:
  assumes inv: "store_inv d st" and inv': "store_inv d st'"
    and cnt: "pypydtcount st = pypydtcount st'"
    and rng: "ring d st = ring d st'"
  shows "st = st'"
proof -
  have "pypy_debug_tracebacks st = pypy_debug_tracebacks st'"
  proof (rule nth_equalityI)
    show "length (pypy_debug_tracebacks st) = length (pypy_debug_tracebacks st')"
      using inv inv' by (simp add: store_inv_def)
  next
    fix i assume "i < length (pypy_debug_tracebacks st)"
    with inv have i: "i < d" by (simp add: store_inv_def)
    let ?k = "nat ((pypydtcount st - 1 - int i) mod int d)"
    have k: "?k < d" using i by (simp add: nat_less_iff)
    have "pypy_debug_tracebacks st ! i = ring d st ! ?k"
      using ring_nth [OF k, of st] slot_before_inverse [OF i] by simp
    also have "\<dots> = ring d st' ! ?k" by (simp add: rng)
    also have "\<dots> = pypy_debug_tracebacks st' ! i"
      using ring_nth [OF k, of st'] slot_before_inverse [OF i, of "pypydtcount st"] cnt by simp
    finally show "pypy_debug_tracebacks st ! i = pypy_debug_tracebacks st' ! i" .
  qed
  with cnt show ?thesis by simp
qed

lemma overwritten_entries_absent:
  assumes same: "length old = length old'" and full: "2 ^ n \<le> length recent"
  shows "store_all (2 ^ n) (old @ recent) (initial_store (2 ^ n)) =
         store_all (2 ^ n) (old' @ recent) (initial_store (2 ^ n))"
proof -
  let ?d = "2 ^ n :: nat"
  obtain st where run: "store_all ?d (old @ recent) (initial_store ?d) = Some st"
    and inv: "store_inv ?d st"
    and cnt: "pypydtcount st = int (length (old @ recent)) mod 2 ^ n"
    and rng: "ring ?d st = take ?d (rev (old @ recent) @ replicate ?d zero_entry)"
    using store_all_initial [of n "old @ recent"] by blast
  obtain st' where run': "store_all ?d (old' @ recent) (initial_store ?d) = Some st'"
    and inv': "store_inv ?d st'"
    and cnt': "pypydtcount st' = int (length (old' @ recent)) mod 2 ^ n"
    and rng': "ring ?d st' = take ?d (rev (old' @ recent) @ replicate ?d zero_entry)"
    using store_all_initial [of n "old' @ recent"] by blast
  have "ring ?d st = take ?d (rev recent)" using full by (simp add: rng)
  moreover have "ring ?d st' = take ?d (rev recent)" using full by (simp add: rng')
  ultimately have "ring ?d st = ring ?d st'" by simp
  moreover have "pypydtcount st = pypydtcount st'" using same by (simp add: cnt cnt')
  ultimately have "st = st'" using inv inv' by (intro store_determined)
  with run run' show ?thesis by simp
qed

text \<open>
  C2. After \<open>M > capacity\<close> recorder calls on the zero-initialized store, the array,
  read backward from the cursor, holds exactly the most recent \<open>capacity\<close> recorded
  entries. The decoder returns, and the elements of its result are exactly those
  entries, most recent first: \<open>capacity\<close> elements and nothing older. The older calls
  leave no trace: any other calls in their place give the same store. After
  \<open>capacity + 1\<close> calls they are all entries but the first, so the overwritten first
  entry (when no later entry equals it) is not among them.
\<close>

theorem decode_after_wrap:
  assumes "\<forall>e\<in>set es. valid_entry e" and "2 ^ n < length es"
  shows "\<exists>st segs. record_all (2 ^ n) es (initial_store (2 ^ n)) = Some st \<and>
           ring (2 ^ n) st = map encode (rev (drop (length es - 2 ^ n) es)) \<and>
           decode (2 ^ n) st = Some segs \<and>
           elements segs = rev (drop (length es - 2 ^ n) es) \<and>
           length (elements segs) = 2 ^ n \<and>
           (\<forall>older. length older = length es - 2 ^ n \<longrightarrow>
              record_all (2 ^ n) (older @ drop (length es - 2 ^ n) es) (initial_store (2 ^ n)) =
                Some st) \<and>
           (length es = 2 ^ n + 1 \<longrightarrow>
              elements segs = rev (tl es) \<and>
              (hd es \<notin> set (tl es) \<longrightarrow> hd es \<notin> set (elements segs)))"
proof -
  from decode_recorded [OF assms(1), of n] obtain st where
    run: "record_all (2 ^ n) es (initial_store (2 ^ n)) = Some st"
    and rng: "ring (2 ^ n) st =
      take (2 ^ n) (map encode (rev es) @ replicate (2 ^ n) zero_entry)"
    and dec: "decode (2 ^ n) st =
      Some (segments_of (take (2 ^ n) (rev es @ replicate (2 ^ n) (Origin NULL))))"
    by blast
  have "take (2 ^ n) (rev es @ replicate (2 ^ n) (Origin NULL)) =
        rev (drop (length es - 2 ^ n) es)"
    using assms(2) by (simp add: take_rev)
  with dec have dec': "decode (2 ^ n) st = Some (segments_of (rev (drop (length es - 2 ^ n) es)))"
    by simp
  have "take (2 ^ n) (map encode (rev es) @ replicate (2 ^ n) zero_entry) =
        map encode (rev (drop (length es - 2 ^ n) es))"
    using assms(2) by (simp add: take_rev take_map)
  with rng have rng': "ring (2 ^ n) st = map encode (rev (drop (length es - 2 ^ n) es))"
    by simp
  have absent: "record_all (2 ^ n) (older @ drop (length es - 2 ^ n) es) (initial_store (2 ^ n)) =
      Some st" if "length older = length es - 2 ^ n" for older
  proof -
    let ?m = "length es - 2 ^ n"
    have "store_all (2 ^ n) (map encode older @ map encode (drop ?m es)) (initial_store (2 ^ n)) =
          store_all (2 ^ n) (map encode (take ?m es) @ map encode (drop ?m es)) (initial_store (2 ^ n))"
      using that assms(2) by (intro overwritten_entries_absent) simp_all
    also have "map encode (take ?m es) @ map encode (drop ?m es) = map encode es"
      by (simp flip: map_append)
    finally show ?thesis using run by (simp add: record_all_store_all)
  qed
  have "drop 1 es = tl es" by (simp add: drop_Suc)
  with run dec' rng' absent assms(2) show ?thesis
    by (auto simp: elements_segments_of)
qed

theorem decode_after_wrap_witness:
  "\<exists>st segs. record_all 128 (Origin 8192 # replicate 128 (Frame 4096)) (initial_store 128) = Some st \<and>
     decode 128 st = Some segs \<and>
     elements segs = replicate 128 (Frame 4096) \<and>
     Origin 8192 \<notin> set (elements segs)"
proof -
  have "\<forall>e\<in>set (Origin 8192 # replicate 128 (Frame 4096)). valid_entry e"
    by (simp add: valid_location_def valid_token_def NULL_def sizeof_pypydtpos_s_def)
  from decode_after_wrap [OF this, of 7] show ?thesis by auto
qed


lemma decode_counted_after_wrap:
  assumes "d \<le> total_writes rs"
  shows "decode_counted d rs = decode d (buffer rs)"
  using assms by (simp add: decode_counted_def decode_def min_def)











end
